theory Spec2Isabelle
  imports Main "HOL-Library.Mapping" "HOL-Library.AList_Mapping"
begin

section \<open>The plugin manager of mbf\_abstract\_nav\<close>

text \<open>
  The development embeds \<^verbatim>\<open>AbstractPluginManager<PluginType>\<close> of
  \<^verbatim>\<open>mbf_abstract_nav/impl/abstract_plugin_manager.tcc\<close>. The class keeps three
  containers (\<^verbatim>\<open>plugins_\<close>, \<^verbatim>\<open>plugins_type_\<close>, \<^verbatim>\<open>names_\<close>) and calls two
  \<^verbatim>\<open>std::function\<close> members, \<^verbatim>\<open>loadPlugin_\<close> and \<^verbatim>\<open>initPlugin_\<close>.

  Modelling decisions:
  \<^item> \<^verbatim>\<open>PluginType::Ptr\<close> is a shared pointer; it is an \<open>option\<close>, with \<open>None\<close> the
    null pointer. The pointee is an opaque value of type \<open>'p\<close>.
  \<^item> A \<^verbatim>\<open>std::map\<close> is a \<open>mapping\<close>. \<^verbatim>\<open>insert\<close> keeps the old entry when the key is
    present, \<^verbatim>\<open>find\<close> and \<^verbatim>\<open>count\<close> are lookups, \<^verbatim>\<open>empty()\<close> is \<open>Mapping.is_empty\<close> and
    \<^verbatim>\<open>clear()\<close> gives \<open>Mapping.empty\<close>. The order in which a \<^verbatim>\<open>std::map\<close> keeps its keys is
    never observed by this class.
  \<^item> The two callbacks may have effects of their own (a factory allocates). Whatever
    they read and write is a value of type \<open>'w\<close>, threaded through every call in the
    order the source makes the calls. The callbacks return (a callback that throws is
    not modelled), they do not reach the manager that is running them, and they do not
    change the parameters while a call is running.
  \<^item> Every call of a callback and every line written to the logger is recorded as an
    event. A member function returns the events of that call, oldest first.
  \<^item> The members keep their names without the trailing underscore of the source, which
    Isabelle does not accept in a name.
  \<^item> The parameters of the node are given as two lookup tables, one for string arrays
    and one for strings, so that a value of the wrong type cannot occur.
    \<^verbatim>\<open>get_parameter(name, out)\<close> of rclcpp leaves \<^verbatim>\<open>out\<close> as it is when the parameter has no
    value. The constructor only declares parameters on the node; these declarations
    are not part of the model.
\<close>

subsection \<open>Data\<close>

type_synonym 'p Ptr = "'p option"

type_synonym ('p, 'w) loadPluginFunction = "string \<Rightarrow> 'w \<Rightarrow> 'p Ptr \<times> 'w"

type_synonym ('p, 'w) initPluginFunction = "string \<Rightarrow> 'p Ptr \<Rightarrow> 'w \<Rightarrow> bool \<times> 'w"

record parameters =
  string_array_parameters :: "string \<rightharpoonup> string list"
  string_parameters :: "string \<rightharpoonup> string"

text \<open>The calls and log lines a member function can produce. The log events carry the
  values that the message of the source prints, in the order it prints them.\<close>

datatype 'p event =
    WARN_no_plugins_configured string
  | ERROR_already_loaded string
  | CALL_loadPlugin string
  | CALL_initPlugin string "'p Ptr"
  | INFO_loaded_successfully string string
  | ERROR_could_not_load string string
  | DEBUG_found_plugin string
  | WARN_not_yet_loaded string

record ('p, 'w) manager =
  param_name :: string
  loadPlugin :: "('p, 'w) loadPluginFunction"
  initPlugin :: "('p, 'w) initPluginFunction"
  plugins :: "(string, 'p Ptr) mapping"
  plugins_type :: "(string, string) mapping"
  names :: "string list"

subsection \<open>Library operations the source calls\<close>

definition get_parameter :: "('k \<rightharpoonup> 'v) \<Rightarrow> 'k \<Rightarrow> 'v \<Rightarrow> 'v" where
  "get_parameter ps name out = (case ps name of None \<Rightarrow> out | Some v \<Rightarrow> v)"

definition map_insert :: "'k \<times> 'v \<Rightarrow> ('k, 'v) mapping \<Rightarrow> ('k, 'v) mapping" where
  "map_insert kv c =
     (case Mapping.lookup c (fst kv) of
        None \<Rightarrow> Mapping.update (fst kv) (snd kv) c
      | Some old \<Rightarrow> c)"

definition map_count :: "('k, 'v) mapping \<Rightarrow> 'k \<Rightarrow> nat" where
  "map_count c k = (case Mapping.lookup c k of None \<Rightarrow> 0 | Some v \<Rightarrow> 1)"

subsection \<open>Member functions\<close>

definition AbstractPluginManager ::
  "string \<Rightarrow> ('p, 'w) loadPluginFunction \<Rightarrow> ('p, 'w) initPluginFunction \<Rightarrow> ('p, 'w) manager" where
  "AbstractPluginManager param_name' loadPlugin' initPlugin' =
     \<lparr>param_name = param_name', loadPlugin = loadPlugin', initPlugin = initPlugin',
      plugins = Mapping.empty, plugins_type = Mapping.empty, names = []\<rparr>"

text \<open>The three insertions that admit a plugin (the successful branch of the loop body).\<close>

definition admit :: "string \<Rightarrow> 'p Ptr \<Rightarrow> string \<Rightarrow> ('p, 'w) manager \<Rightarrow> ('p, 'w) manager" where
  "admit name plugin_ptr ty m =
     m\<lparr>plugins := map_insert (name, plugin_ptr) (plugins m),
       plugins_type := map_insert (name, ty) (plugins_type m),
       names := names m @ [name]\<rparr>"

text \<open>Events going before the outcome of the rest of a call.\<close>

definition preceded_by ::
  "'e list \<Rightarrow> 'r \<times> 'm \<times> 'w \<times> 'e list \<Rightarrow> 'r \<times> 'm \<times> 'w \<times> 'e list" where
  "preceded_by es res = (case res of (r, m, w, evs) \<Rightarrow> (r, m, w, es @ evs))"

text \<open>
  One turn of the \<^verbatim>\<open>for\<close> loop of \<^verbatim>\<open>loadPlugins\<close> for a name that has passed the check
  at the head of the loop body: the type is read, the factory is called, the initializer
  is called when the factory gave a pointer that is not null, and the plugin is admitted
  when both succeeded.
\<close>

definition load_one ::
  "parameters \<Rightarrow> string \<Rightarrow> ('p, 'w) manager \<Rightarrow> 'w \<Rightarrow> ('p, 'w) manager \<times> 'w \<times> 'p event list" where
  "load_one P name m w =
     (let ty = get_parameter (string_parameters P) (name @ ''.type'') '''';
          (plugin_ptr, w1) = loadPlugin m ty w
      in if plugin_ptr = None
         then (m, w1, [CALL_loadPlugin ty, ERROR_could_not_load name ty])
         else
           let (ok, w2) = initPlugin m name plugin_ptr w1
           in if ok
              then (admit name plugin_ptr ty m, w2,
                    [CALL_loadPlugin ty, CALL_initPlugin name plugin_ptr,
                     INFO_loaded_successfully ty name])
              else (m, w2,
                    [CALL_loadPlugin ty, CALL_initPlugin name plugin_ptr,
                     ERROR_could_not_load name ty]))"

text \<open>
  The loop over the names still to be visited. The first component of the result is
  \<open>Some b\<close> when the loop body executed \<^verbatim>\<open>return b\<close>, and \<open>None\<close> when the loop ran to
  its end.
\<close>

fun for_name ::
  "parameters \<Rightarrow> string list \<Rightarrow> ('p, 'w) manager \<Rightarrow> 'w
     \<Rightarrow> bool option \<times> ('p, 'w) manager \<times> 'w \<times> 'p event list" where
  "for_name P [] m w = (None, m, w, [])"
| "for_name P (name # rest) m w =
     (if Mapping.lookup (plugins m) name \<noteq> None
      then (Some False, m, w, [ERROR_already_loaded name])
      else (case load_one P name m w of
              (m1, w1, es) \<Rightarrow> preceded_by es (for_name P rest m1 w1)))"

definition loadPlugins ::
  "parameters \<Rightarrow> ('p, 'w) manager \<Rightarrow> 'w \<Rightarrow> bool \<times> ('p, 'w) manager \<times> 'w \<times> 'p event list" where
  "loadPlugins P m w =
     (let plugin_param_list = get_parameter (string_array_parameters P) (param_name m) []
      in if plugin_param_list = []
         then (False, m, w, [WARN_no_plugins_configured (param_name m)])
         else (case for_name P plugin_param_list m w of
                 (Some b, m', w', evs) \<Rightarrow> (b, m', w', evs)
               | (None, m', w', evs) \<Rightarrow>
                   ((if Mapping.is_empty (plugins m') then False else True), m', w', evs)))"

definition getLoadedNames :: "('p, 'w) manager \<Rightarrow> string list" where
  "getLoadedNames m = names m"

definition hasPlugin :: "('p, 'w) manager \<Rightarrow> string \<Rightarrow> bool" where
  "hasPlugin m name = (map_count (plugins m) name \<noteq> 0)"

text \<open>\<^verbatim>\<open>getType\<close> dereferences the iterator that \<^verbatim>\<open>find\<close> returns without comparing it
  with \<^verbatim>\<open>end()\<close>. The result \<open>None\<close> stands for that dereference of \<^verbatim>\<open>end()\<close>, which is
  undefined behaviour.\<close>

definition getType :: "('p, 'w) manager \<Rightarrow> string \<Rightarrow> string option" where
  "getType m name = (case Mapping.lookup (plugins_type m) name of None \<Rightarrow> None | Some second \<Rightarrow> Some second)"

text \<open>\<^verbatim>\<open>getPlugin\<close> is not a \<^verbatim>\<open>const\<close> member, so the model returns the manager as well.\<close>

definition getPlugin ::
  "('p, 'w) manager \<Rightarrow> string \<Rightarrow> 'p Ptr \<times> ('p, 'w) manager \<times> 'p event list" where
  "getPlugin m name =
     (case Mapping.lookup (plugins m) name of
        Some second \<Rightarrow> (second, m, [DEBUG_found_plugin name])
      | None \<Rightarrow> (None, m, [WARN_not_yet_loaded name]))"

definition clearPlugins :: "('p, 'w) manager \<Rightarrow> ('p, 'w) manager" where
  "clearPlugins m = m\<lparr>plugins := Mapping.empty, plugins_type := Mapping.empty, names := []\<rparr>"

subsection \<open>Admissions, and the states a manager can reach\<close>

text \<open>The admissions that a list of events reports, oldest first, each as the pair of
  the name and the type it was admitted with.\<close>

fun admitted :: "'p event list \<Rightarrow> (string \<times> string) list" where
  "admitted [] = []"
| "admitted (INFO_loaded_successfully ty name # evs) = (name, ty) # admitted evs"
| "admitted (e # evs) = admitted evs"

text \<open>
  \<open>reachable m h\<close>: the manager \<open>m\<close> is reached from construction by calls of the
  member functions that change or may change it, with any parameters and any state of
  the callbacks at each call; \<open>h\<close> lists the admissions since construction or since the
  last \<^verbatim>\<open>clearPlugins\<close>, oldest first.
\<close>

inductive reachable :: "('p, 'w) manager \<Rightarrow> (string \<times> string) list \<Rightarrow> bool" where
  construct: "reachable (AbstractPluginManager param_name' loadPlugin' initPlugin') []"
| load: "reachable m h \<Longrightarrow> loadPlugins P m w = (r, m', w', evs)
           \<Longrightarrow> reachable m' (h @ admitted evs)"
| get: "reachable m h \<Longrightarrow> getPlugin m name = (ptr, m', evs) \<Longrightarrow> reachable m' h"
| clear: "reachable m h \<Longrightarrow> reachable (clearPlugins m) []"

text \<open>
  What holds of a manager that has admitted \<open>h\<close>: the name list is the list of the admitted
  names, no name is listed twice, both maps have the listed names as their keys, the
  type map holds the type of each admission, and no stored pointer is null.
\<close>

definition registry_inv :: "('p, 'w) manager \<Rightarrow> (string \<times> string) list \<Rightarrow> bool" where
  "registry_inv m h \<longleftrightarrow>
     names m = map fst h \<and> distinct (map fst h) \<and>
     Mapping.keys (plugins m) = fst ` set h \<and>
     Mapping.lookup (plugins_type m) = map_of h \<and>
     (\<forall>n. Mapping.lookup (plugins m) n \<noteq> Some None)"

subsection \<open>A configuration to run the model on\<close>

text \<open>
  A factory that knows the type \<open>tA\<close> only and numbers the instances it builds, an
  initializer that fails for the name \<open>p2\<close>, and parameters in which \<open>p1\<close>, \<open>p2\<close> and
  \<open>p5\<close> have the type \<open>tA\<close>, \<open>p3\<close> has a type the factory does not know, and \<open>p4\<close> has
  no type entry.
\<close>

definition example_factory :: "(int, int) loadPluginFunction" where
  "example_factory ty w = (if ty = ''tA'' then (Some w, w + 1) else (None, w))"

definition example_init :: "(int, int) initPluginFunction" where
  "example_init name plugin_ptr w = (name \<noteq> ''p2'', w)"

definition example_parameters :: "string list \<Rightarrow> parameters" where
  "example_parameters ns =
     \<lparr>string_array_parameters = [''planners'' \<mapsto> ns],
      string_parameters =
        [''p1.type'' \<mapsto> ''tA'', ''p2.type'' \<mapsto> ''tA'', ''p3.type'' \<mapsto> ''unknown'',
         ''p5.type'' \<mapsto> ''tA'']\<rparr>"

definition example_manager :: "(int, int) manager" where
  "example_manager = AbstractPluginManager ''planners'' example_factory example_init"

text \<open>The manager after \<open>p1\<close> alone has been admitted, and the one after a call with the
  names \<open>p1, p2, p5\<close>, in which \<open>p2\<close> fails.\<close>

definition example_p1 :: "(int, int) manager" where
  "example_p1 =
     example_manager
       \<lparr>plugins := Mapping.update ''p1'' (Some 0) Mapping.empty,
        plugins_type := Mapping.update ''p1'' ''tA'' Mapping.empty,
        names := [''p1'']\<rparr>"

definition example_loaded :: "(int, int) manager" where
  "example_loaded =
     example_manager
       \<lparr>plugins := Mapping.update ''p5'' (Some 2) (Mapping.update ''p1'' (Some 0) Mapping.empty),
        plugins_type := Mapping.update ''p5'' ''tA'' (Mapping.update ''p1'' ''tA'' Mapping.empty),
        names := [''p1'', ''p5'']\<rparr>"

text \<open>An initializer that fails until the factory has built two instances, so that a name
  which failed at its first turn succeeds when it comes again.\<close>

definition example_retry_init :: "(int, int) initPluginFunction" where
  "example_retry_init name plugin_ptr w = (1 < w, w)"

definition example_retry_manager :: "(int, int) manager" where
  "example_retry_manager = AbstractPluginManager ''planners'' example_factory example_retry_init"

section \<open>Properties of the loop and of the registry\<close>

subsection \<open>The containers and the events\<close>

lemma preceded_by_tuple [simp]: "preceded_by es (r, m, w, evs) = (r, m, w, es @ evs)"
  by (simp add: preceded_by_def)

lemma preceded_by_Nil [simp]: "preceded_by [] res = res"
  by (simp add: preceded_by_def split: prod.splits)

lemma preceded_by_twice [simp]: "preceded_by es (preceded_by es' res) = preceded_by (es @ es') res"
  by (simp add: preceded_by_def split: prod.splits)

lemma fst_preceded_by [simp]: "fst (preceded_by es res) = fst res"
  by (simp add: preceded_by_def split: prod.splits)

lemma manager_preceded_by [simp]: "fst (snd (preceded_by es res)) = fst (snd res)"
  by (simp add: preceded_by_def split: prod.splits)

lemma lookup_map_insert:
  "Mapping.lookup (map_insert (k, v) c) k' =
     (if k' = k \<and> Mapping.lookup c k = None then Some v else Mapping.lookup c k')"
  by (simp add: map_insert_def lookup_update' split: option.splits)

lemma keys_map_insert: "Mapping.keys (map_insert (k, v) c) = insert k (Mapping.keys c)"
  by (auto simp: map_insert_def keys_is_none_rep Option.is_none_def split: option.splits)

lemma is_empty_keys: "Mapping.is_empty c \<longleftrightarrow> Mapping.keys c = {}"
  by (simp add: Mapping.is_empty_def)

lemma hasPlugin_lookup: "hasPlugin m name \<longleftrightarrow> Mapping.lookup (plugins m) name \<noteq> None"
  by (simp add: hasPlugin_def map_count_def split: option.splits)

lemma hasPlugin_keys: "hasPlugin m name \<longleftrightarrow> name \<in> Mapping.keys (plugins m)"
  by (simp add: hasPlugin_lookup keys_is_none_rep Option.is_none_def)

lemma admitted_append [simp]: "admitted (es @ es') = admitted es @ admitted es'"
  by (induction es rule: admitted.induct) simp_all

lemma admit_members [simp]:
  "param_name (admit name ptr ty m) = param_name m"
  "loadPlugin (admit name ptr ty m) = loadPlugin m"
  "initPlugin (admit name ptr ty m) = initPlugin m"
  "names (admit name ptr ty m) = names m @ [name]"
  by (simp_all add: admit_def)

lemma hasPlugin_admit [simp]: "hasPlugin (admit name ptr ty m) n \<longleftrightarrow> n = name \<or> hasPlugin m n"
  by (auto simp: hasPlugin_keys admit_def keys_map_insert)

subsection \<open>One turn of the loop\<close>




text \<open>The four ways through one turn of the loop.\<close>

lemma for_name_Cons_cases:
  assumes "for_name P (name # rest) m w = (r, m', w', evs)"
  obtains
    (duplicate) "hasPlugin m name" "r = Some False" "m' = m" "w' = w"
      "evs = [ERROR_already_loaded name]"
  | (no_instance) ty w1 evs' where "\<not> hasPlugin m name"
      "ty = get_parameter (string_parameters P) (name @ ''.type'') ''''"
      "loadPlugin m ty w = (None, w1)"
      "for_name P rest m w1 = (r, m', w', evs')"
      "evs = [CALL_loadPlugin ty, ERROR_could_not_load name ty] @ evs'"
  | (init_failed) ty p w1 w2 evs' where "\<not> hasPlugin m name"
      "ty = get_parameter (string_parameters P) (name @ ''.type'') ''''"
      "loadPlugin m ty w = (Some p, w1)"
      "initPlugin m name (Some p) w1 = (False, w2)"
      "for_name P rest m w2 = (r, m', w', evs')"
      "evs = [CALL_loadPlugin ty, CALL_initPlugin name (Some p), ERROR_could_not_load name ty] @ evs'"
  | (admitted) ty p w1 w2 evs' where "\<not> hasPlugin m name"
      "ty = get_parameter (string_parameters P) (name @ ''.type'') ''''"
      "loadPlugin m ty w = (Some p, w1)"
      "initPlugin m name (Some p) w1 = (True, w2)"
      "for_name P rest (admit name (Some p) ty m) w2 = (r, m', w', evs')"
      "evs = [CALL_loadPlugin ty, CALL_initPlugin name (Some p), INFO_loaded_successfully ty name] @ evs'"
proof (cases "hasPlugin m name")
  case True
  with assms show ?thesis
    by (intro duplicate) (auto simp: hasPlugin_lookup)
next
  case unregistered: False
  define ty where "ty = get_parameter (string_parameters P) (name @ ''.type'') ''''"
  obtain ptr w1 where lp: "loadPlugin m ty w = (ptr, w1)"
    by (cases "loadPlugin m ty w")
  show ?thesis
  proof (cases ptr)
    case None
    obtain evs' where rest: "for_name P rest m w1 = (r, m', w', evs')"
      and "evs = [CALL_loadPlugin ty, ERROR_could_not_load name ty] @ evs'"
      using assms unregistered lp None
      by (cases "for_name P rest m w1") (auto simp: hasPlugin_lookup ty_def load_one_def Let_def)
    then show ?thesis
      using unregistered lp None ty_def by (intro no_instance) auto
  next
    case (Some p)
    obtain ok w2 where ip: "initPlugin m name (Some p) w1 = (ok, w2)"
      by (cases "initPlugin m name (Some p) w1")
    show ?thesis
    proof (cases ok)
      case True
      obtain evs' where "for_name P rest (admit name (Some p) ty m) w2 = (r, m', w', evs')"
        and "evs = [CALL_loadPlugin ty, CALL_initPlugin name (Some p), INFO_loaded_successfully ty name] @ evs'"
        using assms unregistered lp Some ip True
        by (cases "for_name P rest (admit name (Some p) ty m) w2")
           (auto simp: hasPlugin_lookup ty_def load_one_def Let_def)
      then show ?thesis
        using unregistered lp Some ip True ty_def by (intro admitted) auto
    next
      case False
      obtain evs' where "for_name P rest m w2 = (r, m', w', evs')"
        and "evs = [CALL_loadPlugin ty, CALL_initPlugin name (Some p), ERROR_could_not_load name ty] @ evs'"
        using assms unregistered lp Some ip False
        by (cases "for_name P rest m w2") (auto simp: hasPlugin_lookup ty_def load_one_def Let_def)
      then show ?thesis
        using unregistered lp Some ip False ty_def by (intro init_failed) auto
    qed
  qed
qed

subsection \<open>The loop\<close>

lemma for_name_append:
  "for_name P (xs @ ys) m w =
     (case for_name P xs m w of
        (Some b, m1, w1, e1) \<Rightarrow> (Some b, m1, w1, e1)
      | (None, m1, w1, e1) \<Rightarrow> preceded_by e1 (for_name P ys m1 w1))"
proof (induction xs arbitrary: m w)
  case Nil
  show ?case by simp
next
  case (Cons x xs)
  show ?case
    by (simp add: Cons.IH preceded_by_def split: prod.splits option.splits)
qed

lemma for_name_members:
  "for_name P ns m w = (r, m', w', evs)
     \<Longrightarrow> param_name m' = param_name m \<and> loadPlugin m' = loadPlugin m \<and> initPlugin m' = initPlugin m"
proof (induction ns arbitrary: m w evs)
  case Nil
  then show ?case by simp
next
  case (Cons name rest)
  from Cons.prems show ?case
    by (cases rule: for_name_Cons_cases) (auto dest: Cons.IH)
qed

lemma for_name_registered:
  "for_name P ns m w = (r, m', w', evs)
     \<Longrightarrow> names m' = names m @ map fst (admitted evs) \<and>
         (\<forall>n. hasPlugin m' n \<longleftrightarrow> hasPlugin m n \<or> n \<in> fst ` set (admitted evs))"
proof (induction ns arbitrary: m w evs)
  case Nil
  then show ?case by simp
next
  case (Cons name rest)
  from Cons.prems show ?case
  proof (cases rule: for_name_Cons_cases)
    case (admitted ty p w1 w2 evs')
    from Cons.IH [OF admitted(5)] admitted(6) show ?thesis by auto
  qed (auto dest: Cons.IH)
qed


lemma for_name_returns_False:
  "for_name P ns m w = (Some b, m', w', evs) \<Longrightarrow> b = False"
proof (induction ns arbitrary: m w evs)
  case Nil
  then show ?case by simp
next
  case (Cons name rest)
  from Cons.prems show ?case
    by (cases rule: for_name_Cons_cases) (auto dest: Cons.IH)
qed

lemma for_name_runs_to_end:
  "distinct ns \<Longrightarrow> \<forall>n \<in> set ns. \<not> hasPlugin m n \<Longrightarrow> fst (for_name P ns m w) = None"
proof (induction ns arbitrary: m w)
  case Nil
  then show ?case by simp
next
  case (Cons name rest)
  obtain r m' w' evs where res: "for_name P (name # rest) m w = (r, m', w', evs)"
    by (cases "for_name P (name # rest) m w")
  from res show ?case
  proof (cases rule: for_name_Cons_cases)
    case duplicate
    with Cons.prems show ?thesis by simp
  next
    case (no_instance ty w1 evs')
    from Cons.IH [of m w1] Cons.prems no_instance(4) res show ?thesis by simp
  next
    case (init_failed ty p w1 w2 evs')
    from Cons.IH [of m w2] Cons.prems init_failed(5) res show ?thesis by simp
  next
    case (admitted ty p w1 w2 evs')
    from Cons.IH [of "admit name (Some p) ty m" w2] Cons.prems admitted(5) res
    show ?thesis by auto
  qed
qed

lemma for_name_stops_at_registered:
  "for_name P ns m w = (Some b, m', w', evs)
     \<Longrightarrow> \<exists>pre name post e1. ns = pre @ name # post \<and> for_name P pre m w = (None, m', w', e1)
           \<and> hasPlugin m' name \<and> evs = e1 @ [ERROR_already_loaded name]"
proof (induction ns arbitrary: m w evs)
  case Nil
  then show ?case by simp
next
  case (Cons x rest)
  from Cons.prems show ?case
  proof (cases rule: for_name_Cons_cases)
    case duplicate
    then have "x # rest = [] @ x # rest \<and> for_name P [] m w = (None, m', w', [])
        \<and> hasPlugin m' x \<and> evs = [] @ [ERROR_already_loaded x]"
      by simp
    then show ?thesis by blast
  next
    case (no_instance ty w1 evs')
    from Cons.IH [OF no_instance(4)] obtain pre name post e1 where
      "rest = pre @ name # post" "for_name P pre m w1 = (None, m', w', e1)"
      "hasPlugin m' name" "evs' = e1 @ [ERROR_already_loaded name]"
      by blast
    with no_instance have "x # rest = (x # pre) @ name # post
        \<and> for_name P (x # pre) m w = (None, m', w', [CALL_loadPlugin ty, ERROR_could_not_load x ty] @ e1)
        \<and> hasPlugin m' name
        \<and> evs = ([CALL_loadPlugin ty, ERROR_could_not_load x ty] @ e1) @ [ERROR_already_loaded name]"
      by (simp add: hasPlugin_lookup load_one_def Let_def)
    then show ?thesis by blast
  next
    case (init_failed ty p w1 w2 evs')
    from Cons.IH [OF init_failed(5)] obtain pre name post e1 where
      "rest = pre @ name # post" "for_name P pre m w2 = (None, m', w', e1)"
      "hasPlugin m' name" "evs' = e1 @ [ERROR_already_loaded name]"
      by blast
    with init_failed have "x # rest = (x # pre) @ name # post
        \<and> for_name P (x # pre) m w = (None, m', w',
             [CALL_loadPlugin ty, CALL_initPlugin x (Some p), ERROR_could_not_load x ty] @ e1)
        \<and> hasPlugin m' name
        \<and> evs = ([CALL_loadPlugin ty, CALL_initPlugin x (Some p), ERROR_could_not_load x ty] @ e1)
                  @ [ERROR_already_loaded name]"
      by (simp add: hasPlugin_lookup load_one_def Let_def)
    then show ?thesis by blast
  next
    case (admitted ty p w1 w2 evs')
    from Cons.IH [OF admitted(5)] obtain pre name post e1 where
      "rest = pre @ name # post" "for_name P pre (admit x (Some p) ty m) w2 = (None, m', w', e1)"
      "hasPlugin m' name" "evs' = e1 @ [ERROR_already_loaded name]"
      by blast
    with admitted have "x # rest = (x # pre) @ name # post
        \<and> for_name P (x # pre) m w = (None, m', w',
             [CALL_loadPlugin ty, CALL_initPlugin x (Some p), INFO_loaded_successfully ty x] @ e1)
        \<and> hasPlugin m' name
        \<and> evs = ([CALL_loadPlugin ty, CALL_initPlugin x (Some p), INFO_loaded_successfully ty x] @ e1)
                  @ [ERROR_already_loaded name]"
      by (simp add: hasPlugin_lookup load_one_def Let_def)
    then show ?thesis by blast
  qed
qed

lemma visited_was_unregistered:
  "for_name P pre m w = (None, m1, w1, e1) \<Longrightarrow> name \<in> set pre \<Longrightarrow> \<not> hasPlugin m name"
proof (induction pre arbitrary: m w e1)
  case Nil
  then show ?case by simp
next
  case (Cons x rest)
  from Cons.prems(1) show ?case
  proof (cases rule: for_name_Cons_cases)
    case duplicate
    then show ?thesis by simp
  next
    case (no_instance ty w1 evs')
    with Cons.IH [OF no_instance(4)] Cons.prems(2) show ?thesis by auto
  next
    case (init_failed ty p w1 w2 evs')
    with Cons.IH [OF init_failed(5)] Cons.prems(2) show ?thesis by auto
  next
    case (admitted ty p w1 w2 evs')
    with Cons.IH [OF admitted(5)] Cons.prems(2) show ?thesis by auto
  qed
qed

lemma admission_follows_calls:
  "for_name P ns m w = (r, m', w', evs) \<Longrightarrow> (name, ty) \<in> set (admitted evs)
     \<Longrightarrow> ty = get_parameter (string_parameters P) (name @ ''.type'') '''' \<and>
         (\<exists>e1 p e2. evs = e1 @ [CALL_loadPlugin ty, CALL_initPlugin name (Some p),
                                  INFO_loaded_successfully ty name] @ e2)"
proof (induction ns arbitrary: m w evs)
  case Nil
  then show ?case by simp
next
  case (Cons x rest)
  from Cons.prems(1) show ?case
  proof (cases rule: for_name_Cons_cases)
    case duplicate
    with Cons.prems(2) show ?thesis by simp
  next
    case (no_instance t w1 evs')
    from Cons.prems(2) no_instance(5) have "(name, ty) \<in> set (admitted evs')" by simp
    from Cons.IH [OF no_instance(4) this] obtain e1 p e2 where
      "ty = get_parameter (string_parameters P) (name @ ''.type'') ''''"
      "evs' = e1 @ [CALL_loadPlugin ty, CALL_initPlugin name (Some p), INFO_loaded_successfully ty name] @ e2"
      by blast
    with no_instance(5) have "ty = get_parameter (string_parameters P) (name @ ''.type'') '''' \<and>
      evs = ([CALL_loadPlugin t, ERROR_could_not_load x t] @ e1) @
         [CALL_loadPlugin ty, CALL_initPlugin name (Some p), INFO_loaded_successfully ty name] @ e2"
      by simp
    then show ?thesis by blast
  next
    case (init_failed t q w1 w2 evs')
    from Cons.prems(2) init_failed(6) have "(name, ty) \<in> set (admitted evs')" by simp
    from Cons.IH [OF init_failed(5) this] obtain e1 p e2 where
      "ty = get_parameter (string_parameters P) (name @ ''.type'') ''''"
      "evs' = e1 @ [CALL_loadPlugin ty, CALL_initPlugin name (Some p), INFO_loaded_successfully ty name] @ e2"
      by blast
    with init_failed(6) have "ty = get_parameter (string_parameters P) (name @ ''.type'') '''' \<and>
      evs = ([CALL_loadPlugin t, CALL_initPlugin x (Some q), ERROR_could_not_load x t] @ e1) @
         [CALL_loadPlugin ty, CALL_initPlugin name (Some p), INFO_loaded_successfully ty name] @ e2"
      by simp
    then show ?thesis by blast
  next
    case (admitted t q w1 w2 evs')
    show ?thesis
    proof (cases "(name, ty) = (x, t)")
      case True
      with admitted(2,6) have "ty = get_parameter (string_parameters P) (name @ ''.type'') '''' \<and>
        evs = [] @ [CALL_loadPlugin ty, CALL_initPlugin name (Some q), INFO_loaded_successfully ty name] @ evs'"
        by simp
      then show ?thesis by blast
    next
      case False
      with Cons.prems(2) admitted(6) have "(name, ty) \<in> set (admitted evs')" by auto
      from Cons.IH [OF admitted(5) this] obtain e1 p e2 where
        "ty = get_parameter (string_parameters P) (name @ ''.type'') ''''"
        "evs' = e1 @ [CALL_loadPlugin ty, CALL_initPlugin name (Some p), INFO_loaded_successfully ty name] @ e2"
        by blast
      with admitted(6) have "ty = get_parameter (string_parameters P) (name @ ''.type'') '''' \<and>
        evs = ([CALL_loadPlugin t, CALL_initPlugin x (Some q), INFO_loaded_successfully t x] @ e1) @
           [CALL_loadPlugin ty, CALL_initPlugin name (Some p), INFO_loaded_successfully ty name] @ e2"
        by simp
      then show ?thesis by blast
    qed
  qed
qed

subsection \<open>The invariant of the registry\<close>

lemma registry_inv_admit:
  assumes "registry_inv m h" and "\<not> hasPlugin m name"
  shows "registry_inv (admit name (Some p) ty m) (h @ [(name, ty)])"
proof -
  from assms have fresh: "name \<notin> fst ` set h"
    by (simp add: registry_inv_def hasPlugin_keys)
  then have unmapped: "map_of h name = None"
    by (simp add: map_of_eq_None_iff)
  have "Mapping.lookup (plugins_type (admit name (Some p) ty m)) = map_of (h @ [(name, ty)])"
  proof
    fix n
    show "Mapping.lookup (plugins_type (admit name (Some p) ty m)) n = map_of (h @ [(name, ty)]) n"
      using assms(1) unmapped
      by (auto simp: registry_inv_def admit_def lookup_map_insert map_add_def split: option.splits)
  qed
  moreover have "\<forall>n. Mapping.lookup (plugins (admit name (Some p) ty m)) n \<noteq> Some None"
    using assms(1) by (simp add: registry_inv_def admit_def lookup_map_insert)
  moreover have "Mapping.keys (plugins (admit name (Some p) ty m)) = fst ` set (h @ [(name, ty)])"
    using assms(1) by (auto simp: registry_inv_def admit_def keys_map_insert)
  ultimately show ?thesis
    using assms(1) fresh by (simp add: registry_inv_def)
qed

lemma registry_inv_for_name:
  "for_name P ns m w = (r, m', w', evs) \<Longrightarrow> registry_inv m h
     \<Longrightarrow> registry_inv m' (h @ admitted evs)"
proof (induction ns arbitrary: m w h evs)
  case Nil
  then show ?case by simp
next
  case (Cons name rest)
  from Cons.prems(1) show ?case
  proof (cases rule: for_name_Cons_cases)
    case duplicate
    with Cons.prems(2) show ?thesis by simp
  next
    case (no_instance ty w1 evs')
    with Cons.IH [OF no_instance(4) Cons.prems(2)] show ?thesis by simp
  next
    case (init_failed ty p w1 w2 evs')
    with Cons.IH [OF init_failed(5) Cons.prems(2)] show ?thesis by simp
  next
    case (admitted ty p w1 w2 evs')
    have "registry_inv (admit name (Some p) ty m) (h @ [(name, ty)])"
      using Cons.prems(2) admitted(1) by (rule registry_inv_admit)
    from Cons.IH [OF admitted(5) this] admitted(6) show ?thesis by simp
  qed
qed

lemma empty_list_outcome:
  "get_parameter (string_array_parameters P) (param_name m) [] = []
     \<Longrightarrow> loadPlugins P m w = (False, m, w, [WARN_no_plugins_configured (param_name m)])"
  by (simp add: loadPlugins_def)

lemma registry_inv_loadPlugins:
  assumes "loadPlugins P m w = (r, m', w', evs)" and "registry_inv m h"
  shows "registry_inv m' (h @ admitted evs)"
proof (cases "get_parameter (string_array_parameters P) (param_name m) [] = []")
  case True
  with assms show ?thesis by (auto simp: empty_list_outcome)
next
  case False
  obtain r1 where "for_name P (get_parameter (string_array_parameters P) (param_name m) []) m w
      = (r1, m', w', evs)"
    using assms(1) False
    by (cases "for_name P (get_parameter (string_array_parameters P) (param_name m) []) m w")
       (auto simp: loadPlugins_def split: option.splits)
  then show ?thesis using assms(2) by (rule registry_inv_for_name)
qed

lemma reachable_registry_inv: "reachable m h \<Longrightarrow> registry_inv m h"
proof (induction rule: reachable.induct)
  case (construct param_name' loadPlugin' initPlugin')
  show ?case
    by (simp add: registry_inv_def AbstractPluginManager_def fun_eq_iff)
next
  case (load m h P w r m' w' evs)
  from load.hyps(2) load.IH show ?case by (rule registry_inv_loadPlugins)
next
  case (get m h name ptr m' evs)
  then show ?case by (auto simp: getPlugin_def split: option.splits)
next
  case (clear m h)
  show ?case
    by (simp add: registry_inv_def clearPlugins_def fun_eq_iff)
qed

lemma admission_follows_calls_loadPlugins:
  assumes "loadPlugins P m w = (r, m', w', evs)" and "(name, ty) \<in> set (admitted evs)"
  shows "ty = get_parameter (string_parameters P) (name @ ''.type'') '''' \<and>
         (\<exists>e1 p e2. evs = e1 @ [CALL_loadPlugin ty, CALL_initPlugin name (Some p),
                                  INFO_loaded_successfully ty name] @ e2)"
proof (cases "get_parameter (string_array_parameters P) (param_name m) [] = []")
  case True
  with assms show ?thesis by (auto simp: empty_list_outcome)
next
  case False
  obtain r1 where "for_name P (get_parameter (string_array_parameters P) (param_name m) []) m w
      = (r1, m', w', evs)"
    using assms(1) False
    by (cases "for_name P (get_parameter (string_array_parameters P) (param_name m) []) m w")
       (auto simp: loadPlugins_def split: option.splits)
  then show ?thesis using assms(2) by (rule admission_follows_calls)
qed

subsection \<open>Runs of the configuration\<close>

lemmas example_defs =
  example_factory_def example_init_def example_parameters_def example_manager_def
  example_loaded_def AbstractPluginManager_def

lemmas run_defs =
  loadPlugins_def load_one_def admit_def get_parameter_def map_insert_def Let_def

lemma example_run:
  "loadPlugins (example_parameters [''p1'', ''p2'', ''p5'']) example_manager 0 =
     (True, example_loaded, 3,
      [CALL_loadPlugin ''tA'', CALL_initPlugin ''p1'' (Some 0), INFO_loaded_successfully ''tA'' ''p1'',
       CALL_loadPlugin ''tA'', CALL_initPlugin ''p2'' (Some 1), ERROR_could_not_load ''p2'' ''tA'',
       CALL_loadPlugin ''tA'', CALL_initPlugin ''p5'' (Some 2), INFO_loaded_successfully ''tA'' ''p5''])"
  by (simp add: example_defs run_defs)

lemma reachable_example_loaded: "reachable example_loaded [(''p1'', ''tA''), (''p5'', ''tA'')]"
proof -
  have "reachable example_manager []"
    unfolding example_manager_def by (rule reachable.construct)
  from reachable.load [OF this example_run] show ?thesis by simp
qed

section \<open>The member functions\<close>

subsection \<open>The value that loadPlugins returns\<close>

text \<open>
  C1, as stated, fails. With the names \<open>p1, p1\<close> the first \<open>p1\<close> is admitted, the second
  one makes the call return \<open>False\<close>, and the registry is not empty after the call.
\<close>

theorem loadPlugins_early_return_counterexample:
  "fst (loadPlugins (example_parameters [''p1'', ''p1'']) example_manager 0) = False
   \<and> \<not> Mapping.is_empty
         (plugins (fst (snd (loadPlugins (example_parameters [''p1'', ''p1'']) example_manager 0))))
   \<and> admitted (snd (snd (snd (loadPlugins (example_parameters [''p1'', ''p1'']) example_manager 0))))
       = [(''p1'', ''tA'')]"
  by (simp add: example_defs run_defs)

text \<open>
  C1, amended. When the name list is not empty and the loop runs to its end, the value
  that \<^verbatim>\<open>loadPlugins\<close> returns says whether the registry is non-empty after the call; in
  particular it is \<open>True\<close> when the call has admitted at least one name, whatever happened
  to the other names.
\<close>

theorem loadPlugins_result_after_full_loop:
  assumes "get_parameter (string_array_parameters P) (param_name m) [] = ns"
      and "ns \<noteq> []"
      and "fst (for_name P ns m w) = None"
      and "loadPlugins P m w = (r, m', w', evs)"
  shows "r = (\<not> Mapping.is_empty (plugins m')) \<and> (admitted evs \<noteq> [] \<longrightarrow> r = True)"
proof -
  obtain m1 w1 e1 where loop: "for_name P ns m w = (None, m1, w1, e1)"
    using assms(3) by (cases "for_name P ns m w") auto
  with assms(1,2,4) have res: "r = (\<not> Mapping.is_empty (plugins m'))" "m' = m1" "evs = e1"
    by (auto simp: loadPlugins_def)
  have "admitted evs \<noteq> [] \<longrightarrow> \<not> Mapping.is_empty (plugins m')"
  proof
    assume "admitted evs \<noteq> []"
    then obtain n where "n \<in> fst ` set (admitted evs)"
      by (cases "admitted evs") auto
    with for_name_registered [OF loop] res(2,3) have "hasPlugin m' n" by simp
    then show "\<not> Mapping.is_empty (plugins m')"
      by (auto simp: hasPlugin_keys is_empty_keys)
  qed
  with res(1) show ?thesis by simp
qed

theorem loadPlugins_result_after_full_loop_witness:
  "get_parameter (string_array_parameters (example_parameters [''p1'', ''p2'', ''p5'']))
       (param_name example_manager) [] = [''p1'', ''p2'', ''p5'']
   \<and> [''p1'', ''p2'', ''p5''] \<noteq> []
   \<and> fst (for_name (example_parameters [''p1'', ''p2'', ''p5'']) [''p1'', ''p2'', ''p5''] example_manager 0) = None
   \<and> fst (loadPlugins (example_parameters [''p1'', ''p2'', ''p5'']) example_manager 0) = True
   \<and> \<not> Mapping.is_empty (plugins example_loaded)"
proof -
  have a: "get_parameter (string_array_parameters (example_parameters [''p1'', ''p2'', ''p5'']))
       (param_name example_manager) [] = [''p1'', ''p2'', ''p5'']"
    by (simp add: example_defs get_parameter_def)
  have b: "[''p1'', ''p2'', ''p5''] \<noteq> []" by simp
  have c: "fst (for_name (example_parameters [''p1'', ''p2'', ''p5'']) [''p1'', ''p2'', ''p5''] example_manager 0) = None"
    by (simp add: example_defs run_defs)
  from loadPlugins_result_after_full_loop [OF a b c example_run] a b c example_run
  show ?thesis by simp
qed

subsection \<open>Names that are registered already\<close>

text \<open>
  C2, as stated, fails. The list \<open>p3, p3, p1\<close> repeats a name, but \<open>p3\<close> is not admitted at
  its first turn (the factory does not know its type), so its second turn is an ordinary
  one; the loop goes on to \<open>p1\<close> and the call returns \<open>True\<close>.
\<close>

theorem loadPlugins_repeated_name_counterexample:
  "\<not> distinct [''p3'', ''p3'', ''p1'']
   \<and> loadPlugins (example_parameters [''p3'', ''p3'', ''p1'']) example_manager 0 =
      (True,
       example_p1, 1,
       [CALL_loadPlugin ''unknown'', ERROR_could_not_load ''p3'' ''unknown'',
        CALL_loadPlugin ''unknown'', ERROR_could_not_load ''p3'' ''unknown'',
        CALL_loadPlugin ''tA'', CALL_initPlugin ''p1'' (Some 0),
        INFO_loaded_successfully ''tA'' ''p1''])"
  by (simp add: example_defs example_p1_def run_defs)

text \<open>
  C2, amended. When the loop reaches a name that is registered at that moment (admitted
  earlier in this call, or left from an earlier call), \<^verbatim>\<open>loadPlugins\<close> returns \<open>False\<close> and
  stops there: the manager and the state of the callbacks are those reached before that
  name, the last event is the error about it, and every name registered before the call
  or admitted before that turn is still registered. Conversely, whenever the loop
  returns early, it returns \<open>False\<close> at a name that is registered at that moment.
\<close>

theorem loadPlugins_abort_on_registered_name:
  "(get_parameter (string_array_parameters P) (param_name m) [] = pre @ name # post
      \<and> for_name P pre m w = (None, m1, w1, e1) \<and> hasPlugin m1 name
    \<longrightarrow> loadPlugins P m w = (False, m1, w1, e1 @ [ERROR_already_loaded name])
        \<and> (\<forall>n. hasPlugin m n \<or> n \<in> fst ` set (admitted e1) \<longrightarrow> hasPlugin m1 n))
   \<and> (for_name P ns m w = (Some b, m', w', evs)
    \<longrightarrow> b = False
        \<and> (\<exists>pre name post e1. ns = pre @ name # post \<and> for_name P pre m w = (None, m', w', e1)
              \<and> hasPlugin m' name \<and> evs = e1 @ [ERROR_already_loaded name]))"
proof (intro conjI impI)
  assume a: "get_parameter (string_array_parameters P) (param_name m) [] = pre @ name # post
      \<and> for_name P pre m w = (None, m1, w1, e1) \<and> hasPlugin m1 name"
  then have "for_name P (pre @ name # post) m w = (Some False, m1, w1, e1 @ [ERROR_already_loaded name])"
    by (simp add: for_name_append hasPlugin_lookup)
  with a show "loadPlugins P m w = (False, m1, w1, e1 @ [ERROR_already_loaded name])"
    by (simp add: loadPlugins_def)
  from a for_name_registered [of P pre m w None m1 w1 e1]
  show "\<forall>n. hasPlugin m n \<or> n \<in> fst ` set (admitted e1) \<longrightarrow> hasPlugin m1 n"
    by simp
next
  assume "for_name P ns m w = (Some b, m', w', evs)"
  then show "b = False" by (rule for_name_returns_False)
next
  assume "for_name P ns m w = (Some b, m', w', evs)"
  then show "\<exists>pre name post e1. ns = pre @ name # post \<and> for_name P pre m w = (None, m', w', e1)
              \<and> hasPlugin m' name \<and> evs = e1 @ [ERROR_already_loaded name]"
    by (rule for_name_stops_at_registered)
qed

theorem loadPlugins_abort_on_registered_name_witness:
  "(get_parameter (string_array_parameters (example_parameters [''p1'', ''p1'']))
        (param_name example_manager) [] = [''p1''] @ ''p1'' # []
    \<and> for_name (example_parameters [''p1'', ''p1'']) [''p1''] example_manager 0 =
        (None, example_p1, 1,
         [CALL_loadPlugin ''tA'', CALL_initPlugin ''p1'' (Some 0), INFO_loaded_successfully ''tA'' ''p1''])
    \<and> hasPlugin example_p1 ''p1'')
   \<and> loadPlugins (example_parameters [''p1'', ''p1'']) example_manager 0 =
       (False, example_p1, 1,
        [CALL_loadPlugin ''tA'', CALL_initPlugin ''p1'' (Some 0), INFO_loaded_successfully ''tA'' ''p1'',
         ERROR_already_loaded ''p1''])
   \<and> for_name (example_parameters [''p1'', ''p1'']) [''p1'', ''p1''] example_manager 0 =
       (Some False, example_p1, 1,
        [CALL_loadPlugin ''tA'', CALL_initPlugin ''p1'' (Some 0), INFO_loaded_successfully ''tA'' ''p1'',
         ERROR_already_loaded ''p1''])"
proof -
  let ?P = "example_parameters [''p1'', ''p1'']"
  let ?e1 = "[CALL_loadPlugin ''tA'', CALL_initPlugin ''p1'' (Some (0::int)),
              INFO_loaded_successfully ''tA'' ''p1'']"
  have a: "get_parameter (string_array_parameters ?P) (param_name example_manager) []
             = [''p1''] @ ''p1'' # []"
    by (simp add: example_defs get_parameter_def)
  have b: "for_name ?P [''p1''] example_manager 0 = (None, example_p1, 1, ?e1)"
    by (simp add: example_defs example_p1_def run_defs)
  have c: "hasPlugin example_p1 ''p1''"
    by (simp add: example_p1_def hasPlugin_def map_count_def)
  have d: "for_name ?P [''p1'', ''p1''] example_manager 0 =
             (Some False, example_p1, 1, ?e1 @ [ERROR_already_loaded ''p1''])"
    by (simp add: example_defs example_p1_def run_defs)
  from loadPlugins_abort_on_registered_name
         [of ?P example_manager "[''p1'']" "''p1''" "[]" 0 example_p1 1 ?e1
             "[''p1'', ''p1'']" False example_p1 1 "?e1 @ [ERROR_already_loaded ''p1'']"]
       a b c d
  show ?thesis by simp
qed

subsection \<open>No names configured\<close>

text \<open>
  C3. When the configured name list is empty (or the list parameter has no value),
  \<^verbatim>\<open>loadPlugins\<close> returns \<open>False\<close> at once: the manager, with its three containers, and the
  state of the callbacks are what they were before the call, and the only event of the
  call is the warning, so neither callback is called.
\<close>

theorem loadPlugins_no_names:
  assumes "get_parameter (string_array_parameters P) (param_name m) [] = []"
  shows "loadPlugins P m w = (False, m, w, [WARN_no_plugins_configured (param_name m)])"
  using assms by (simp add: loadPlugins_def)

theorem loadPlugins_no_names_witness:
  "get_parameter (string_array_parameters (example_parameters [])) (param_name example_loaded) [] = []
   \<and> loadPlugins (example_parameters []) example_loaded 3
       = (False, example_loaded, 3, [WARN_no_plugins_configured ''planners''])"
proof -
  have a: "get_parameter (string_array_parameters (example_parameters [])) (param_name example_loaded) [] = []"
    by (simp add: example_defs get_parameter_def)
  have "param_name example_loaded = ''planners''"
    by (simp add: example_defs)
  with a loadPlugins_no_names [OF a, of 3] show ?thesis by simp
qed

subsection \<open>Names that fail\<close>



subsection \<open>Lookups\<close>

text \<open>
  C5. In every reachable state, \<^verbatim>\<open>hasPlugin\<close> says whether the name is a key of \<^verbatim>\<open>plugins_\<close>;
  when it does, \<^verbatim>\<open>getPlugin\<close> returns the stored pointer, which is not null, and when it
  does not, \<^verbatim>\<open>getPlugin\<close> returns the null pointer. \<^verbatim>\<open>getPlugin\<close> returns the manager
  unchanged (\<^verbatim>\<open>hasPlugin\<close> is a \<^verbatim>\<open>const\<close> member).
\<close>

theorem hasPlugin_getPlugin:
  assumes "reachable m h"
  shows "(hasPlugin m name \<longleftrightarrow> name \<in> Mapping.keys (plugins m))
       \<and> (hasPlugin m name \<longrightarrow>
            (\<exists>p. Mapping.lookup (plugins m) name = Some (Some p)
                \<and> getPlugin m name = (Some p, m, [DEBUG_found_plugin name])))
       \<and> (\<not> hasPlugin m name \<longrightarrow> getPlugin m name = (None, m, [WARN_not_yet_loaded name]))"
proof -
  from assms have "registry_inv m h" by (rule reachable_registry_inv)
  then have not_null: "Mapping.lookup (plugins m) name \<noteq> Some None"
    by (simp add: registry_inv_def)
  have "hasPlugin m name \<longrightarrow>
          (\<exists>p. Mapping.lookup (plugins m) name = Some (Some p)
              \<and> getPlugin m name = (Some p, m, [DEBUG_found_plugin name]))"
    using not_null by (auto simp: hasPlugin_lookup getPlugin_def)
  moreover have "\<not> hasPlugin m name \<longrightarrow> getPlugin m name = (None, m, [WARN_not_yet_loaded name])"
    by (simp add: hasPlugin_lookup getPlugin_def)
  ultimately show ?thesis by (simp add: hasPlugin_keys)
qed

theorem hasPlugin_getPlugin_witness:
  "reachable example_loaded [(''p1'', ''tA''), (''p5'', ''tA'')]
   \<and> hasPlugin example_loaded ''p5''
   \<and> getPlugin example_loaded ''p5'' = (Some 2, example_loaded, [DEBUG_found_plugin ''p5''])
   \<and> \<not> hasPlugin example_loaded ''p2''
   \<and> getPlugin example_loaded ''p2'' = (None, example_loaded, [WARN_not_yet_loaded ''p2''])"
proof -
  have a: "hasPlugin example_loaded ''p5''" "\<not> hasPlugin example_loaded ''p2''"
    by (simp_all add: example_loaded_def hasPlugin_def map_count_def)
  have b: "Mapping.lookup (plugins example_loaded) ''p5'' = Some (Some 2)"
    by (simp add: example_loaded_def)
  from hasPlugin_getPlugin [OF reachable_example_loaded, of "''p5''"]
       hasPlugin_getPlugin [OF reachable_example_loaded, of "''p2''"]
       reachable_example_loaded a b
  show ?thesis by auto
qed

subsection \<open>The three containers\<close>

text \<open>
  C6. In every reachable state the two maps have exactly the names of the name list as
  their keys, the name list has no duplicates, and \<^verbatim>\<open>getLoadedNames\<close> returns the names
  admitted since construction or the last \<^verbatim>\<open>clearPlugins\<close>, in the order of admission.
\<close>

theorem registry_views_consistent:
  assumes "reachable m h"
  shows "Mapping.keys (plugins m) = set (names m)
       \<and> Mapping.keys (plugins_type m) = set (names m)
       \<and> distinct (names m)
       \<and> getLoadedNames m = map fst h"
proof -
  from assms have inv: "registry_inv m h" by (rule reachable_registry_inv)
  then have "Mapping.keys (plugins_type m) = fst ` set h"
    by (simp add: registry_inv_def keys_dom_lookup dom_map_of_conv_image_fst)
  with inv show ?thesis
    by (simp add: registry_inv_def getLoadedNames_def)
qed

theorem registry_views_consistent_witness:
  "reachable example_loaded [(''p1'', ''tA''), (''p5'', ''tA'')]
   \<and> Mapping.keys (plugins example_loaded) = {''p1'', ''p5''}
   \<and> Mapping.keys (plugins_type example_loaded) = {''p1'', ''p5''}
   \<and> getLoadedNames example_loaded = [''p1'', ''p5'']"
proof -
  have "names example_loaded = [''p1'', ''p5'']"
    by (simp add: example_loaded_def)
  with registry_views_consistent [OF reachable_example_loaded] reachable_example_loaded
  show ?thesis by simp
qed

subsection \<open>Clearing\<close>

text \<open>
  C7. After \<^verbatim>\<open>clearPlugins\<close> the three containers are empty and the manager is the one the
  constructor gives for the same parameter name and callbacks, so \<^verbatim>\<open>loadPlugins\<close> behaves
  on it as on a newly constructed manager; in particular a list of distinct names
  never makes the loop return early, whatever was registered before the clear.
\<close>

theorem clearPlugins_as_constructed:
  "Mapping.is_empty (plugins (clearPlugins m))
   \<and> Mapping.is_empty (plugins_type (clearPlugins m))
   \<and> getLoadedNames (clearPlugins m) = []
   \<and> clearPlugins m = AbstractPluginManager (param_name m) (loadPlugin m) (initPlugin m)
   \<and> loadPlugins P (clearPlugins m) w
       = loadPlugins P (AbstractPluginManager (param_name m) (loadPlugin m) (initPlugin m)) w
   \<and> (distinct ns \<longrightarrow> fst (for_name P ns (clearPlugins m) w) = None)"
proof -
  have eq: "clearPlugins m = AbstractPluginManager (param_name m) (loadPlugin m) (initPlugin m)"
    by (cases m) (simp add: clearPlugins_def AbstractPluginManager_def)
  have "\<forall>n \<in> set ns. \<not> hasPlugin (clearPlugins m) n"
    by (simp add: hasPlugin_lookup clearPlugins_def)
  then have "distinct ns \<longrightarrow> fst (for_name P ns (clearPlugins m) w) = None"
    by (simp add: for_name_runs_to_end)
  then have runs: "distinct ns \<longrightarrow> fst (for_name P ns (clearPlugins m) w) = None" .
  have views: "Mapping.is_empty (plugins (clearPlugins m))
      \<and> Mapping.is_empty (plugins_type (clearPlugins m))
      \<and> getLoadedNames (clearPlugins m) = []"
    by (simp add: clearPlugins_def getLoadedNames_def)
  have same: "loadPlugins P (clearPlugins m) w
      = loadPlugins P (AbstractPluginManager (param_name m) (loadPlugin m) (initPlugin m)) w"
    by (simp only: eq)
  from views eq same runs show ?thesis by blast
qed

theorem clearPlugins_as_constructed_witness:
  "clearPlugins example_loaded = example_manager
   \<and> distinct [''p1'', ''p2'', ''p5'']
   \<and> loadPlugins (example_parameters [''p1'', ''p2'', ''p5'']) (clearPlugins example_loaded) 0
       = loadPlugins (example_parameters [''p1'', ''p2'', ''p5'']) example_manager 0
   \<and> fst (for_name (example_parameters [''p1'', ''p2'', ''p5'']) [''p1'', ''p2'', ''p5'']
             (clearPlugins example_loaded) 0) = None
   \<and> fst (loadPlugins (example_parameters [''p1'', ''p2'', ''p5'']) example_loaded 0) = False"
proof -
  have a: "AbstractPluginManager (param_name example_loaded) (loadPlugin example_loaded)
             (initPlugin example_loaded) = example_manager"
    by (simp add: example_defs)
  have b: "fst (loadPlugins (example_parameters [''p1'', ''p2'', ''p5'']) example_loaded 0) = False"
    by (simp add: example_defs run_defs)
  have c: "distinct [''p1'', ''p2'', ''p5'']" by simp
  note clearPlugins_as_constructed
         [of example_loaded "example_parameters [''p1'', ''p2'', ''p5'']" 0 "[''p1'', ''p2'', ''p5'']",
          unfolded a]
  with b c show ?thesis by blast
qed

subsection \<open>The recorded type\<close>

text \<open>
  C8. In every reachable state, \<^verbatim>\<open>getType\<close> of a registered name finds an entry, and the
  entry is the type the name was admitted with; for a name that is not registered the
  lookup finds nothing (the dereference is undefined). The type of an admission is the
  type read from the parameters for that name, and the one the factory was called with
  just before.
\<close>

theorem getType_of_registered:
  assumes "reachable m h"
  shows "(hasPlugin m name \<longrightarrow> (\<exists>ty. getType m name = Some ty \<and> (name, ty) \<in> set h))
       \<and> (\<not> hasPlugin m name \<longrightarrow> getType m name = None)
       \<and> (\<forall>P w r m' w' evs ty.
             loadPlugins P m w = (r, m', w', evs) \<and> (name, ty) \<in> set (admitted evs)
             \<longrightarrow> hasPlugin m' name \<and> getType m' name = Some ty
                 \<and> ty = get_parameter (string_parameters P) (name @ ''.type'') ''''
                 \<and> (\<exists>e1 p e2. evs = e1 @ [CALL_loadPlugin ty, CALL_initPlugin name (Some p),
                                          INFO_loaded_successfully ty name] @ e2))"
proof -
  from assms have inv: "registry_inv m h" by (rule reachable_registry_inv)
  have lookup: "getType m' n = map_of h' n" if "registry_inv m' h'" for m' :: "('a, 'b) manager" and h' n
    using that by (simp add: registry_inv_def getType_def split: option.splits)
  have registered: "hasPlugin m' n \<longleftrightarrow> n \<in> fst ` set h'" if "registry_inv m' h'"
    for m' :: "('a, 'b) manager" and h' n
    using that by (simp add: registry_inv_def hasPlugin_keys)
  have "hasPlugin m name \<longrightarrow> (\<exists>ty. getType m name = Some ty \<and> (name, ty) \<in> set h)"
  proof
    assume "hasPlugin m name"
    with registered [OF inv] have "name \<in> fst ` set h" by simp
    then have "map_of h name \<noteq> None"
      by (simp add: map_of_eq_None_iff)
    then obtain ty where "map_of h name = Some ty"
      by (cases "map_of h name") auto
    with lookup [OF inv] show "\<exists>ty. getType m name = Some ty \<and> (name, ty) \<in> set h"
      by (auto dest: map_of_SomeD)
  qed
  moreover have "\<not> hasPlugin m name \<longrightarrow> getType m name = None"
    using registered [OF inv] lookup [OF inv] by (simp add: map_of_eq_None_iff)
  moreover have "\<forall>P w r m' w' evs ty.
             loadPlugins P m w = (r, m', w', evs) \<and> (name, ty) \<in> set (admitted evs)
             \<longrightarrow> hasPlugin m' name \<and> getType m' name = Some ty
                 \<and> ty = get_parameter (string_parameters P) (name @ ''.type'') ''''
                 \<and> (\<exists>e1 p e2. evs = e1 @ [CALL_loadPlugin ty, CALL_initPlugin name (Some p),
                                          INFO_loaded_successfully ty name] @ e2)"
  proof (intro allI impI, elim conjE)
    fix P w r m' w' evs ty
    assume run: "loadPlugins P m w = (r, m', w', evs)" and adm: "(name, ty) \<in> set (admitted evs)"
    from run inv have inv': "registry_inv m' (h @ admitted evs)"
      by (rule registry_inv_loadPlugins)
    then have "distinct (map fst (h @ admitted evs))"
      by (simp add: registry_inv_def)
    moreover from adm have "(name, ty) \<in> set (h @ admitted evs)" by simp
    ultimately have "map_of (h @ admitted evs) name = Some ty"
      by (rule map_of_is_SomeI)
    with lookup [OF inv'] have "getType m' name = Some ty" by simp
    moreover from adm registered [OF inv'] have "hasPlugin m' name" by force
    ultimately show "hasPlugin m' name \<and> getType m' name = Some ty
                 \<and> ty = get_parameter (string_parameters P) (name @ ''.type'') ''''
                 \<and> (\<exists>e1 p e2. evs = e1 @ [CALL_loadPlugin ty, CALL_initPlugin name (Some p),
                                          INFO_loaded_successfully ty name] @ e2)"
      using admission_follows_calls_loadPlugins [OF run adm] by blast
  qed
  ultimately show ?thesis by blast
qed

theorem getType_of_registered_witness:
  "reachable example_manager []
   \<and> loadPlugins (example_parameters [''p1'', ''p2'', ''p5'']) example_manager 0 =
      (True, example_loaded, 3,
       [CALL_loadPlugin ''tA'', CALL_initPlugin ''p1'' (Some 0), INFO_loaded_successfully ''tA'' ''p1'',
        CALL_loadPlugin ''tA'', CALL_initPlugin ''p2'' (Some 1), ERROR_could_not_load ''p2'' ''tA'',
        CALL_loadPlugin ''tA'', CALL_initPlugin ''p5'' (Some 2), INFO_loaded_successfully ''tA'' ''p5''])
   \<and> \<not> hasPlugin example_manager ''p5'' \<and> getType example_manager ''p5'' = None
   \<and> hasPlugin example_loaded ''p5'' \<and> getType example_loaded ''p5'' = Some ''tA''"
proof -
  have a: "reachable example_manager []"
    unfolding example_manager_def by (rule reachable.construct)
  have b: "\<not> hasPlugin example_manager ''p5''"
    by (simp add: example_defs hasPlugin_def map_count_def)
  let ?evs = "[CALL_loadPlugin ''tA'', CALL_initPlugin ''p1'' (Some (0::int)), INFO_loaded_successfully ''tA'' ''p1'',
        CALL_loadPlugin ''tA'', CALL_initPlugin ''p2'' (Some 1), ERROR_could_not_load ''p2'' ''tA'',
        CALL_loadPlugin ''tA'', CALL_initPlugin ''p5'' (Some 2), INFO_loaded_successfully ''tA'' ''p5'']"
  have c: "(''p5'', ''tA'') \<in> set (admitted ?evs)" by simp
  from getType_of_registered [OF a, of "''p5''"] b
  have "getType example_manager ''p5'' = None"
    and "hasPlugin example_loaded ''p5'' \<and> getType example_loaded ''p5'' = Some ''tA''"
    using example_run c by blast+
  with a b example_run show ?thesis by simp
qed

subsection \<open>A name that comes again after it failed\<close>

text \<open>
  C9. A name that the loop has visited before without admitting it is not registered
  when it comes again, so the later turn is an ordinary one and not an early return:
  the factory is called again with the type of the name; when it gives the null pointer
  the name is skipped; otherwise the initializer is called again with that pointer, and
  the name is admitted when the initializer succeeds and skipped when it fails. The
  loop goes on with the remaining names from the manager and the state of the callbacks
  that this turn leaves. After an admission the name is registered, \<^verbatim>\<open>getPlugin\<close> returns
  the pointer the factory gave, the name is the last of \<^verbatim>\<open>getLoadedNames\<close>, and (when
  the three containers were consistent before the call) \<^verbatim>\<open>getType\<close> returns the type.
\<close>

theorem repeated_unadmitted_name_is_processed:
  assumes "for_name P pre m w = (None, m1, w1, e1)"
      and "name \<in> set pre"
      and "name \<notin> fst ` set (admitted e1)"
      and "ty = get_parameter (string_parameters P) (name @ ''.type'') ''''"
      and "loadPlugin m1 ty w1 = (plugin_ptr, w2)"
      and "initPlugin m1 name plugin_ptr w2 = (ok, w3)"
  shows "\<not> hasPlugin m1 name
       \<and> for_name P (pre @ name # rest) m w =
           (if plugin_ptr = None
            then preceded_by (e1 @ [CALL_loadPlugin ty, ERROR_could_not_load name ty])
                   (for_name P rest m1 w2)
            else if ok
            then preceded_by
                   (e1 @ [CALL_loadPlugin ty, CALL_initPlugin name plugin_ptr,
                          INFO_loaded_successfully ty name])
                   (for_name P rest (admit name plugin_ptr ty m1) w3)
            else preceded_by
                   (e1 @ [CALL_loadPlugin ty, CALL_initPlugin name plugin_ptr,
                          ERROR_could_not_load name ty])
                   (for_name P rest m1 w3))
       \<and> (plugin_ptr \<noteq> None \<and> ok \<longrightarrow>
             hasPlugin (admit name plugin_ptr ty m1) name
           \<and> getPlugin (admit name plugin_ptr ty m1) name
               = (plugin_ptr, admit name plugin_ptr ty m1, [DEBUG_found_plugin name])
           \<and> getLoadedNames (admit name plugin_ptr ty m1) = getLoadedNames m1 @ [name]
           \<and> (registry_inv m h \<longrightarrow> getType (admit name plugin_ptr ty m1) name = Some ty))"
proof -
  from assms(1,2) have "\<not> hasPlugin m name" by (rule visited_was_unregistered)
  with for_name_registered [OF assms(1)] assms(3) have unregistered: "\<not> hasPlugin m1 name"
    by simp
  have turn: "load_one P name m1 w1 =
           (if plugin_ptr = None
            then (m1, w2, [CALL_loadPlugin ty, ERROR_could_not_load name ty])
            else if ok
            then (admit name plugin_ptr ty m1, w3,
                  [CALL_loadPlugin ty, CALL_initPlugin name plugin_ptr,
                   INFO_loaded_successfully ty name])
            else (m1, w3,
                  [CALL_loadPlugin ty, CALL_initPlugin name plugin_ptr,
                   ERROR_could_not_load name ty]))"
    using assms(4,5,6) by (simp add: load_one_def Let_def)
  have "for_name P (pre @ name # rest) m w = preceded_by e1 (for_name P (name # rest) m1 w1)"
    using assms(1) by (simp add: for_name_append)
  with unregistered turn have whole: "for_name P (pre @ name # rest) m w =
           (if plugin_ptr = None
            then preceded_by (e1 @ [CALL_loadPlugin ty, ERROR_could_not_load name ty])
                   (for_name P rest m1 w2)
            else if ok
            then preceded_by
                   (e1 @ [CALL_loadPlugin ty, CALL_initPlugin name plugin_ptr,
                          INFO_loaded_successfully ty name])
                   (for_name P rest (admit name plugin_ptr ty m1) w3)
            else preceded_by
                   (e1 @ [CALL_loadPlugin ty, CALL_initPlugin name plugin_ptr,
                          ERROR_could_not_load name ty])
                   (for_name P rest m1 w3))"
    by (simp add: hasPlugin_lookup)
  have state: "hasPlugin (admit name plugin_ptr ty m1) name
           \<and> getPlugin (admit name plugin_ptr ty m1) name
               = (plugin_ptr, admit name plugin_ptr ty m1, [DEBUG_found_plugin name])
           \<and> getLoadedNames (admit name plugin_ptr ty m1) = getLoadedNames m1 @ [name]"
    using unregistered
    by (simp add: getLoadedNames_def getPlugin_def hasPlugin_lookup admit_def lookup_map_insert)
  have recorded: "getType (admit name plugin_ptr ty m1) name = Some ty"
    if "plugin_ptr \<noteq> None" and "registry_inv m h"
  proof -
    from that(1) obtain p where p: "plugin_ptr = Some p" by auto
    from assms(1) that(2) have "registry_inv m1 (h @ admitted e1)"
      by (rule registry_inv_for_name)
    from registry_inv_admit [OF this unregistered, of p ty]
    have inv: "registry_inv (admit name plugin_ptr ty m1) ((h @ admitted e1) @ [(name, ty)])"
      using p by simp
    then have "distinct (map fst ((h @ admitted e1) @ [(name, ty)]))"
      by (simp add: registry_inv_def)
    moreover have "(name, ty) \<in> set ((h @ admitted e1) @ [(name, ty)])" by simp
    ultimately have "map_of ((h @ admitted e1) @ [(name, ty)]) name = Some ty"
      by (rule map_of_is_SomeI)
    with inv show ?thesis
      by (simp add: registry_inv_def getType_def split: option.splits)
  qed
  from unregistered whole state recorded show ?thesis by blast
qed

theorem repeated_unadmitted_name_is_processed_witness:
  "for_name (example_parameters [''p1'', ''p1'']) [''p1''] example_retry_manager 0
     = (None, example_retry_manager, 1,
        [CALL_loadPlugin ''tA'', CALL_initPlugin ''p1'' (Some 0), ERROR_could_not_load ''p1'' ''tA''])
   \<and> ''p1'' \<in> set [''p1'']
   \<and> ''p1'' \<notin> fst ` set (admitted [CALL_loadPlugin ''tA'', CALL_initPlugin ''p1'' (Some 0),
                                        ERROR_could_not_load ''p1'' ''tA'' :: int event])
   \<and> ''tA'' = get_parameter (string_parameters (example_parameters [''p1'', ''p1'']))
                 (''p1'' @ ''.type'') ''''
   \<and> loadPlugin example_retry_manager ''tA'' 1 = (Some 1, 2)
   \<and> initPlugin example_retry_manager ''p1'' (Some 1) 2 = (True, 2)
   \<and> registry_inv example_retry_manager []
   \<and> for_name (example_parameters [''p1'', ''p1'']) ([''p1''] @ ''p1'' # []) example_retry_manager 0
       = (None, admit ''p1'' (Some 1) ''tA'' example_retry_manager, 2,
          [CALL_loadPlugin ''tA'', CALL_initPlugin ''p1'' (Some 0), ERROR_could_not_load ''p1'' ''tA'',
           CALL_loadPlugin ''tA'', CALL_initPlugin ''p1'' (Some 1), INFO_loaded_successfully ''tA'' ''p1''])
   \<and> hasPlugin (admit ''p1'' (Some 1) ''tA'' example_retry_manager) ''p1''
   \<and> getPlugin (admit ''p1'' (Some 1) ''tA'' example_retry_manager) ''p1''
       = (Some 1, admit ''p1'' (Some 1) ''tA'' example_retry_manager, [DEBUG_found_plugin ''p1''])
   \<and> getLoadedNames (admit ''p1'' (Some 1) ''tA'' example_retry_manager) = [''p1'']
   \<and> getType (admit ''p1'' (Some 1) ''tA'' example_retry_manager) ''p1'' = Some ''tA''
   \<and> loadPlugins (example_parameters [''p1'', ''p1'']) example_retry_manager 0
       = (True, admit ''p1'' (Some 1) ''tA'' example_retry_manager, 2,
          [CALL_loadPlugin ''tA'', CALL_initPlugin ''p1'' (Some 0), ERROR_could_not_load ''p1'' ''tA'',
           CALL_loadPlugin ''tA'', CALL_initPlugin ''p1'' (Some 1), INFO_loaded_successfully ''tA'' ''p1''])"
proof -
  let ?P = "example_parameters [''p1'', ''p1'']"
  let ?e = "[CALL_loadPlugin ''tA'', CALL_initPlugin ''p1'' (Some 0),
             ERROR_could_not_load ''p1'' ''tA''] :: int event list"
  have a: "for_name ?P [''p1''] example_retry_manager 0 = (None, example_retry_manager, 1, ?e)"
    by (simp add: example_defs example_retry_manager_def example_retry_init_def run_defs)
  have b: "''p1'' \<in> set [''p1'']" by simp
  have c: "''p1'' \<notin> fst ` set (admitted ?e)" by simp
  have d: "''tA'' = get_parameter (string_parameters ?P) (''p1'' @ ''.type'') ''''"
    by (simp add: example_defs get_parameter_def)
  have e: "loadPlugin example_retry_manager ''tA'' 1 = (Some 1, 2)"
    by (simp add: example_defs example_retry_manager_def)
  have f: "initPlugin example_retry_manager ''p1'' (Some 1) 2 = (True, 2)"
    by (simp add: example_defs example_retry_manager_def example_retry_init_def)
  have g: "registry_inv example_retry_manager []"
    by (simp add: registry_inv_def example_retry_manager_def AbstractPluginManager_def fun_eq_iff)
  have h: "getLoadedNames example_retry_manager = []"
    by (simp add: getLoadedNames_def example_retry_manager_def AbstractPluginManager_def)
  have i: "loadPlugins ?P example_retry_manager 0
       = (True, admit ''p1'' (Some 1) ''tA'' example_retry_manager, 2,
          [CALL_loadPlugin ''tA'', CALL_initPlugin ''p1'' (Some 0), ERROR_could_not_load ''p1'' ''tA'',
           CALL_loadPlugin ''tA'', CALL_initPlugin ''p1'' (Some 1), INFO_loaded_successfully ''tA'' ''p1''])"
    by (simp add: example_defs example_retry_manager_def example_retry_init_def run_defs)
  from repeated_unadmitted_name_is_processed [OF a b c d e f, of "[]" "[]"] g h
  have "for_name ?P ([''p1''] @ ''p1'' # []) example_retry_manager 0
       = (None, admit ''p1'' (Some 1) ''tA'' example_retry_manager, 2,
          [CALL_loadPlugin ''tA'', CALL_initPlugin ''p1'' (Some 0), ERROR_could_not_load ''p1'' ''tA'',
           CALL_loadPlugin ''tA'', CALL_initPlugin ''p1'' (Some 1), INFO_loaded_successfully ''tA'' ''p1''])
   \<and> hasPlugin (admit ''p1'' (Some 1) ''tA'' example_retry_manager) ''p1''
   \<and> getPlugin (admit ''p1'' (Some 1) ''tA'' example_retry_manager) ''p1''
       = (Some 1, admit ''p1'' (Some 1) ''tA'' example_retry_manager, [DEBUG_found_plugin ''p1''])
   \<and> getLoadedNames (admit ''p1'' (Some 1) ''tA'' example_retry_manager) = [''p1'']
   \<and> getType (admit ''p1'' (Some 1) ''tA'' example_retry_manager) ''p1'' = Some ''tA''"
    by simp
  with a b c d e f g i show ?thesis by blast
qed

subsection \<open>A name without a type\<close>



end
